theory Spec2Isabelle
  imports Main
begin

section \<open>Throttle, debounce and sliding-window rate limiter (src/index.ts)\<close>

text \<open>
  The three primitives of \<^verbatim>\<open>src/index.ts\<close> are closures (throttle, debounce) and a class
  (RateLimiter) over mutable variables. Each is embedded as a record of its variables and
  one function per handler, taking the state and returning the new one.

  Conventions of the embedding:
  \<^item> JavaScript is single-threaded and every handler (a call of the wrapper, a timer
    callback, a method) runs to completion; a handler is a function on the state.
  \<^item> \<^verbatim>\<open>Date.now()\<close> is an integer number of milliseconds. The reading is the parameter
    \<open>now\<close> of the handler; all reads inside one handler return that reading.
  \<^item> \<^verbatim>\<open>wait\<close>, \<^verbatim>\<open>maxWait\<close>, \<^verbatim>\<open>limit\<close> and \<^verbatim>\<open>window\<close> are integers (of either sign:
    the source validates none of them). The one place where the source computes with
    \<^verbatim>\<open>undefined\<close> (\<^verbatim>\<open>timestamps[0]\<close> of an empty array in \<^verbatim>\<open>retryAfter\<close>) yields
    \<^verbatim>\<open>NaN\<close>, which is a value of its own.
  \<^item> \<^verbatim>\<open>setTimeout(cb, d)\<close> stores the requested delay \<open>d\<close> in the timer variable, as it was
    passed; \<^verbatim>\<open>clearTimeout\<close> and the callback's own first statement reset the variable to
    \<open>None\<close>. A callback is a handler of its own (\<open>..._fire\<close>), which the host runs at a
    time of its choice and only while the timer is still set.
  \<^item> The wrapped function \<^verbatim>\<open>fn\<close> is a function from the argument tuple to a result; it
    returns normally and does not call the wrapper again. Every invocation is appended to
    the log \<open>calls\<close>, which the source does not have.
  \<^item> The argument tuple of a call is a JavaScript array, hence truthy; \<^verbatim>\<open>lastArgs\<close> is
    an option and \<^verbatim>\<open>if (lastArgs)\<close> asks whether it is \<open>Some\<close>.
  \<^item> Variables of the two closures are prefixed \<open>th_\<close> and \<open>db_\<close>, since both closures name
    them alike.
\<close>

subsection \<open>Throttle\<close>

record ThrottleOptions =
  opt_leading :: "bool option"
  opt_trailing :: "bool option"

record ('a, 'r) throttle_env =
  th_fn :: "'a \<Rightarrow> 'r"
  th_wait :: int
  th_leading :: bool
  th_trailing :: bool

record 'a throttle_state =
  th_lastCallTime :: "int option"
  th_lastExecTime :: int
  th_timer :: "int option"
  th_lastArgs :: "'a option"
  th_isPending :: bool
  th_calls :: "'a list"

text \<open>\<^verbatim>\<open>throttle(fn, wait, options)\<close>: the defaults of the options and the initial variables.\<close>

definition throttle ::
  "('a \<Rightarrow> 'r) \<Rightarrow> int \<Rightarrow> ThrottleOptions \<Rightarrow> ('a, 'r) throttle_env \<times> 'a throttle_state" where
  "throttle fn wait options =
     (\<lparr>th_fn = fn, th_wait = wait,
       th_leading = (case opt_leading options of None \<Rightarrow> True | Some b \<Rightarrow> b),
       th_trailing = (case opt_trailing options of None \<Rightarrow> True | Some b \<Rightarrow> b)\<rparr>,
      \<lparr>th_lastCallTime = None, th_lastExecTime = 0, th_timer = None,
       th_lastArgs = None, th_isPending = False, th_calls = []\<rparr>)"

text \<open>\<^verbatim>\<open>execute(args)\<close>, lines 95-99.\<close>

definition throttle_execute ::
  "('a, 'r) throttle_env \<Rightarrow> int \<Rightarrow> 'a \<Rightarrow> 'a throttle_state \<Rightarrow> 'r option \<times> 'a throttle_state" where
  "throttle_execute env now args st =
     (Some (th_fn env args),
      st\<lparr>th_lastExecTime := now, th_isPending := False, th_calls := th_calls st @ [args]\<rparr>)"

text \<open>The wrapper \<^verbatim>\<open>throttled(...args)\<close>, lines 101-132. The result \<open>None\<close> is \<^verbatim>\<open>undefined\<close>.\<close>

definition throttled ::
  "('a, 'r) throttle_env \<Rightarrow> int \<Rightarrow> 'a \<Rightarrow> 'a throttle_state \<Rightarrow> 'r option \<times> 'a throttle_state" where
  "throttled env now args st =
     (let elapsed = now - th_lastExecTime st;
          st1 = st\<lparr>th_lastArgs := Some args, th_lastCallTime := Some now\<rparr>;
          st2 = (if elapsed \<ge> th_wait env then st1\<lparr>th_timer := None\<rparr> else st1)
      in if elapsed \<ge> th_wait env \<and> th_leading env then throttle_execute env now args st2
         else if th_trailing env \<and> th_timer st2 = None
         then (None, st2\<lparr>th_isPending := True, th_timer := Some (th_wait env - elapsed)\<rparr>)
         else (None, st2))"

text \<open>The callback of the trailing timer, lines 122-128.\<close>

definition throttled_timer_fire ::
  "('a, 'r) throttle_env \<Rightarrow> int \<Rightarrow> 'a throttle_state \<Rightarrow> 'a throttle_state" where
  "throttled_timer_fire env now st =
     (case th_timer st of
        None \<Rightarrow> st
      | Some d \<Rightarrow>
          (let st1 = st\<lparr>th_timer := None\<rparr>
           in case th_lastArgs st1 of
                None \<Rightarrow> st1
              | Some args \<Rightarrow>
                  if th_trailing env
                  then (snd (throttle_execute env now args st1))\<lparr>th_lastArgs := None\<rparr>
                  else st1))"

text \<open>\<^verbatim>\<open>throttled.cancel()\<close>, lines 134-141.\<close>

definition throttled_cancel :: "'a throttle_state \<Rightarrow> 'a throttle_state" where
  "throttled_cancel st = st\<lparr>th_timer := None, th_lastArgs := None, th_isPending := False\<rparr>"

text \<open>\<^verbatim>\<open>throttled.flush()\<close>, lines 143-150.\<close>

definition throttled_flush ::
  "('a, 'r) throttle_env \<Rightarrow> int \<Rightarrow> 'a throttle_state \<Rightarrow> 'a throttle_state" where
  "throttled_flush env now st =
     (case (th_timer st, th_lastArgs st) of
        (Some d, Some args) \<Rightarrow>
          (snd (throttle_execute env now args (st\<lparr>th_timer := None\<rparr>)))\<lparr>th_lastArgs := None\<rparr>
      | _ \<Rightarrow> st)"

text \<open>The getter \<^verbatim>\<open>throttled.pending\<close>, lines 152-154.\<close>

definition throttled_pending :: "'a throttle_state \<Rightarrow> bool" where
  "throttled_pending st = th_isPending st"

subsection \<open>Debounce\<close>

record DebounceOptions =
  opt_leading_d :: "bool option"
  opt_maxWait :: "int option"

record ('a, 'r) debounce_env =
  db_fn :: "'a \<Rightarrow> 'r"
  db_wait :: int
  db_leading :: bool
  db_maxWait :: "int option"

record 'a debounce_state =
  db_timer :: "int option"
  db_maxTimer :: "int option"
  db_lastArgs :: "'a option"
  db_isPending :: bool
  db_leadingCalled :: bool
  db_calls :: "'a list"

text \<open>\<^verbatim>\<open>debounce(fn, wait, options)\<close>: the defaults of the options and the initial variables.\<close>

definition debounce ::
  "('a \<Rightarrow> 'r) \<Rightarrow> int \<Rightarrow> DebounceOptions \<Rightarrow> ('a, 'r) debounce_env \<times> 'a debounce_state" where
  "debounce fn wait options =
     (\<lparr>db_fn = fn, db_wait = wait,
       db_leading = (case opt_leading_d options of None \<Rightarrow> False | Some b \<Rightarrow> b),
       db_maxWait = opt_maxWait options\<rparr>,
      \<lparr>db_timer = None, db_maxTimer = None, db_lastArgs = None,
       db_isPending = False, db_leadingCalled = False, db_calls = []\<rparr>)"

text \<open>\<^verbatim>\<open>execute()\<close>, lines 188-199.\<close>

definition debounce_execute :: "'a debounce_state \<Rightarrow> 'a debounce_state" where
  "debounce_execute st =
     (let st1 = (case db_lastArgs st of
                   None \<Rightarrow> st
                 | Some args \<Rightarrow> st\<lparr>db_calls := db_calls st @ [args], db_lastArgs := None\<rparr>)
      in st1\<lparr>db_isPending := False, db_leadingCalled := False, db_maxTimer := None\<rparr>)"

text \<open>The wrapper \<^verbatim>\<open>debounced(...args)\<close>, lines 201-234.\<close>

definition debounced :: "('a, 'r) debounce_env \<Rightarrow> 'a \<Rightarrow> 'a debounce_state \<Rightarrow> 'a debounce_state" where
  "debounced env args st =
     (let st1 = st\<lparr>db_lastArgs := Some args, db_isPending := True\<rparr>;
          st2 = (if db_leading env \<and> \<not> db_leadingCalled st1
                 then st1\<lparr>db_leadingCalled := True, db_calls := db_calls st1 @ [args]\<rparr>
                 else st1);
          st3 = st2\<lparr>db_timer := Some (db_wait env)\<rparr>
      in case db_maxWait env of
           None \<Rightarrow> st3
         | Some m \<Rightarrow> if db_maxTimer st3 = None then st3\<lparr>db_maxTimer := Some m\<rparr> else st3)"

text \<open>The callback of the quiet-period timer, lines 215-223.\<close>

definition debounced_timer_fire ::
  "('a, 'r) debounce_env \<Rightarrow> 'a debounce_state \<Rightarrow> 'a debounce_state" where
  "debounced_timer_fire env st =
     (case db_timer st of
        None \<Rightarrow> st
      | Some d \<Rightarrow>
          (let st1 = st\<lparr>db_timer := None\<rparr>
           in if \<not> db_leading env \<or> db_lastArgs st1 \<noteq> None
              then debounce_execute st1
              else st1\<lparr>db_isPending := False, db_leadingCalled := False\<rparr>))"

text \<open>The callback of the ceiling timer, lines 227-232.\<close>

definition debounced_maxTimer_fire :: "'a debounce_state \<Rightarrow> 'a debounce_state" where
  "debounced_maxTimer_fire st =
     (case db_maxTimer st of
        None \<Rightarrow> st
      | Some d \<Rightarrow> debounce_execute (st\<lparr>db_maxTimer := None, db_timer := None\<rparr>))"

text \<open>\<^verbatim>\<open>debounced.cancel()\<close>, lines 236-244.\<close>

definition debounced_cancel :: "'a debounce_state \<Rightarrow> 'a debounce_state" where
  "debounced_cancel st =
     st\<lparr>db_timer := None, db_maxTimer := None, db_lastArgs := None,
        db_isPending := False, db_leadingCalled := False\<rparr>"

text \<open>\<^verbatim>\<open>debounced.flush()\<close>, lines 246-250.\<close>

definition debounced_flush :: "'a debounce_state \<Rightarrow> 'a debounce_state" where
  "debounced_flush st = debounce_execute (st\<lparr>db_timer := None\<rparr>)"

text \<open>The getter \<^verbatim>\<open>debounced.pending\<close>, lines 252-254.\<close>

definition debounced_pending :: "'a debounce_state \<Rightarrow> bool" where
  "debounced_pending st = db_isPending st"

subsection \<open>Rate limiter\<close>

datatype strategy = Drop | Queue | Error

record RateLimiterOptions =
  opt_limit :: int
  opt_window :: int
  opt_strategy :: "strategy option"

text \<open>
  \<^verbatim>\<open>class RateLimitError\<close>, lines 55-65: the two numbers it carries (its message is a
  rendering of the same two numbers).
\<close>

datatype RateLimitError = RateLimitError (err_limit: int) (err_window: int)

text \<open>A JavaScript number that is an integer or \<^verbatim>\<open>NaN\<close>, with \<^verbatim>\<open>Math.max\<close> on it.\<close>

datatype jsnum = Num int | NaN

fun Math_max :: "jsnum \<Rightarrow> jsnum \<Rightarrow> jsnum" where
  "Math_max (Num a) (Num b) = Num (max a b)"
| "Math_max _ _ = NaN"

text \<open>
  The object: its three read-only fields and its three private ones. A queued waiter is
  the pair of callbacks of one promise; \<open>'w\<close> names the promise. \<open>granted\<close> is the log of
  the \<^verbatim>\<open>item.resolve()\<close> calls, in the order they were made; the source never calls
  \<^verbatim>\<open>item.reject\<close>.
\<close>

record 'w RateLimiter =
  limit :: int
  window :: int
  strategy :: strategy
  timestamps :: "int list"
  queue :: "'w list"
  drainTimer :: "jsnum option"
  granted :: "'w list"

text \<open>The constructor, lines 288-292.\<close>

definition RateLimiter_new :: "RateLimiterOptions \<Rightarrow> 'w RateLimiter" where
  "RateLimiter_new options =
     \<lparr>limit = opt_limit options, window = opt_window options,
      strategy = (case opt_strategy options of None \<Rightarrow> Drop | Some s \<Rightarrow> s),
      timestamps = [], queue = [], drainTimer = None, granted = []\<rparr>"

text \<open>\<^verbatim>\<open>cleanup()\<close>, lines 295-299.\<close>

definition cleanup :: "int \<Rightarrow> 'w RateLimiter \<Rightarrow> 'w RateLimiter" where
  "cleanup now rl =
     (let cutoff = now - window rl
      in rl\<lparr>timestamps := filter (\<lambda>t. t > cutoff) (timestamps rl)\<rparr>)"

text \<open>\<^verbatim>\<open>remaining()\<close>, lines 302-305.\<close>

definition remaining :: "int \<Rightarrow> 'w RateLimiter \<Rightarrow> int \<times> 'w RateLimiter" where
  "remaining now rl =
     (let rl1 = cleanup now rl
      in (max 0 (limit rl1 - int (length (timestamps rl1))), rl1))"

text \<open>\<^verbatim>\<open>retryAfter()\<close>, lines 308-313. On an empty array \<^verbatim>\<open>timestamps[0]\<close> is \<^verbatim>\<open>undefined\<close>
  and the arithmetic on it gives \<^verbatim>\<open>NaN\<close>.\<close>

definition retryAfter :: "int \<Rightarrow> 'w RateLimiter \<Rightarrow> jsnum \<times> 'w RateLimiter" where
  "retryAfter now rl =
     (let rl1 = cleanup now rl
      in if int (length (timestamps rl1)) < limit rl1 then (Num 0, rl1)
         else (case timestamps rl1 of
                 [] \<Rightarrow> (NaN, rl1)
               | oldest # _ \<Rightarrow> (Num (max 0 (oldest + window rl1 - now)), rl1)))"

text \<open>\<^verbatim>\<open>tryAcquire()\<close>, lines 318-325.\<close>

definition tryAcquire :: "int \<Rightarrow> 'w RateLimiter \<Rightarrow> bool \<times> 'w RateLimiter" where
  "tryAcquire now rl =
     (let rl1 = cleanup now rl
      in if int (length (timestamps rl1)) < limit rl1
         then (True, rl1\<lparr>timestamps := timestamps rl1 @ [now]\<rparr>)
         else (False, rl1))"

text \<open>\<^verbatim>\<open>scheduleDrain()\<close>, lines 376-383.\<close>

definition scheduleDrain :: "int \<Rightarrow> 'w RateLimiter \<Rightarrow> 'w RateLimiter" where
  "scheduleDrain now rl =
     (case drainTimer rl of
        Some d \<Rightarrow> rl
      | None \<Rightarrow>
          (case retryAfter now rl of
             (delay, rl1) \<Rightarrow> rl1\<lparr>drainTimer := Some (Math_max delay (Num 10))\<rparr>))"

text \<open>
  The executor of the promise that \<^verbatim>\<open>acquire()\<close> returns under \<^verbatim>\<open>"queue"\<close>, lines 341-347:
  it runs synchronously inside \<^verbatim>\<open>acquire()\<close>.
\<close>

definition enqueue :: "int \<Rightarrow> 'w \<Rightarrow> 'w RateLimiter \<Rightarrow> 'w RateLimiter" where
  "enqueue now w rl = scheduleDrain now (rl\<lparr>queue := queue rl @ [w]\<rparr>)"

text \<open>
  \<^verbatim>\<open>acquire()\<close>, lines 332-349. The promise it returns is resolved with a boolean, rejected
  with an error, or left pending with its callbacks in the queue.
\<close>

datatype 'w acquired = Resolved bool | Rejected RateLimitError | Pending 'w

definition acquire :: "int \<Rightarrow> 'w \<Rightarrow> 'w RateLimiter \<Rightarrow> 'w acquired \<times> 'w RateLimiter" where
  "acquire now w rl =
     (case tryAcquire now rl of
        (True, rl1) \<Rightarrow> (Resolved True, rl1)
      | (False, rl1) \<Rightarrow>
          (case strategy rl1 of
             Error \<Rightarrow> (Rejected (RateLimitError (limit rl1) (window rl1)), rl1)
           | Drop \<Rightarrow> (Resolved False, rl1)
           | Queue \<Rightarrow> (Pending w, enqueue now w rl1)))"

text \<open>\<^verbatim>\<open>reset()\<close>, lines 363-374.\<close>

definition reset :: "'w RateLimiter \<Rightarrow> 'w RateLimiter" where
  "reset rl =
     rl\<lparr>timestamps := [], granted := granted rl @ queue rl, queue := [], drainTimer := None\<rparr>"

text \<open>
  The loop of \<^verbatim>\<open>drainQueue()\<close>, lines 386-389: \<^verbatim>\<open>tryAcquire()\<close> is not called on an empty
  queue, and each round removes the head of the queue.
\<close>

function drainLoop :: "int \<Rightarrow> 'w RateLimiter \<Rightarrow> 'w RateLimiter" where
  "drainLoop now rl =
     (case queue rl of
        [] \<Rightarrow> rl
      | item # rest \<Rightarrow>
          (case tryAcquire now rl of
             (True, rl1) \<Rightarrow> drainLoop now (rl1\<lparr>queue := rest, granted := granted rl1 @ [item]\<rparr>)
           | (False, rl1) \<Rightarrow> rl1))"
  by pat_completeness auto
termination
  by (relation "measure (\<lambda>(now, rl). length (queue rl))") auto

text \<open>\<^verbatim>\<open>drainQueue()\<close>, lines 385-393.\<close>

definition drainQueue :: "int \<Rightarrow> 'w RateLimiter \<Rightarrow> 'w RateLimiter" where
  "drainQueue now rl =
     (let rl1 = drainLoop now rl
      in if queue rl1 \<noteq> [] then scheduleDrain now rl1 else rl1)"

text \<open>The callback of the drain timer, lines 379-382.\<close>

definition drainTimer_fire :: "int \<Rightarrow> 'w RateLimiter \<Rightarrow> 'w RateLimiter" where
  "drainTimer_fire now rl =
     (case drainTimer rl of
        None \<Rightarrow> rl
      | Some d \<Rightarrow> drainQueue now (rl\<lparr>drainTimer := None\<rparr>))"

declare drainLoop.simps [simp del]

subsection \<open>Sequences of handlers\<close>

text \<open>A burst of calls of the debounced wrapper, one argument tuple per call, in order.\<close>

fun debounced_burst ::
  "('a, 'r) debounce_env \<Rightarrow> 'a list \<Rightarrow> 'a debounce_state \<Rightarrow> 'a debounce_state" where
  "debounced_burst env [] st = st"
| "debounced_burst env (args # later) st = debounced_burst env later (debounced env args st)"

text \<open>
  Consecutive \<^verbatim>\<open>tryAcquire()\<close> calls, one clock reading per call, with the list of their
  results.
\<close>

fun tryAcquire_seq :: "int list \<Rightarrow> 'w RateLimiter \<Rightarrow> bool list \<times> 'w RateLimiter" where
  "tryAcquire_seq [] rl = ([], rl)"
| "tryAcquire_seq (t # ts) rl =
     (case tryAcquire t rl of
        (b, rl1) \<Rightarrow> (case tryAcquire_seq ts rl1 of (bs, rl2) \<Rightarrow> (b # bs, rl2)))"

text \<open>
  What can happen to a limiter: a call of one of its public methods, or the host running
  the callback of the drain timer. Each carries the clock reading of its handler;
  \<open>Call_acquire\<close> also carries the name of the promise that the call returns.
\<close>

datatype 'w event =
    Call_tryAcquire int
  | Call_acquire int 'w
  | Call_remaining int
  | Call_retryAfter int
  | Call_reset
  | Fire_drainTimer int

fun step :: "'w event \<Rightarrow> 'w RateLimiter \<Rightarrow> 'w RateLimiter" where
  "step (Call_tryAcquire now) rl = snd (tryAcquire now rl)"
| "step (Call_acquire now w) rl = snd (acquire now w rl)"
| "step (Call_remaining now) rl = snd (remaining now rl)"
| "step (Call_retryAfter now) rl = snd (retryAfter now rl)"
| "step Call_reset rl = reset rl"
| "step (Fire_drainTimer now) rl = drainTimer_fire now rl"

fun run :: "'w event list \<Rightarrow> 'w RateLimiter \<Rightarrow> 'w RateLimiter" where
  "run [] rl = rl"
| "run (e # es) rl = run es (step e rl)"

text \<open>
  The promises that a sequence of events leaves pending at the time of their
  \<^verbatim>\<open>acquire()\<close> call, in the order of the calls.
\<close>

fun enqueued_by :: "'w event \<Rightarrow> 'w RateLimiter \<Rightarrow> 'w list" where
  "enqueued_by (Call_acquire now w) rl = (if fst (acquire now w rl) = Pending w then [w] else [])"
| "enqueued_by _ rl = []"

fun arrivals :: "'w event list \<Rightarrow> 'w RateLimiter \<Rightarrow> 'w list" where
  "arrivals [] rl = []"
| "arrivals (e # es) rl = enqueued_by e rl @ arrivals es (step e rl)"

section \<open>Properties of the throttle\<close>

text \<open>
  C2 (as amended). A call made when the window has fully elapsed (\<open>elapsed \<ge> wait\<close>) with
  \<open>leading\<close> enabled runs the wrapped function at once with the call's arguments and
  returns its result to the caller; it sets \<open>lastExecTime\<close> to \<open>now\<close>, clears the timer
  and the pending flag, and leaves the call's arguments in \<open>lastArgs\<close>.
\<close>

theorem throttled_leading_call:
  assumes "now - th_lastExecTime st \<ge> th_wait env" and "th_leading env"
  shows "throttled env now args st =
           (Some (th_fn env args),
            st\<lparr>th_lastCallTime := Some now, th_lastExecTime := now, th_timer := None,
               th_lastArgs := Some args, th_isPending := False,
               th_calls := th_calls st @ [args]\<rparr>)"
  using assms by (simp add: throttled_def throttle_execute_def Let_def)

text \<open>
  The theorem at the first call of \<^verbatim>\<open>throttle(fn, 100)\<close>, made at clock reading 1000 with
  the argument 7.
\<close>

theorem throttled_leading_call_witness:
  "1000 - th_lastExecTime (snd (throttle (id :: int \<Rightarrow> int) 100 \<lparr>opt_leading = None, opt_trailing = None\<rparr>))
     \<ge> th_wait (fst (throttle (id :: int \<Rightarrow> int) 100 \<lparr>opt_leading = None, opt_trailing = None\<rparr>))
   \<and> th_leading (fst (throttle (id :: int \<Rightarrow> int) 100 \<lparr>opt_leading = None, opt_trailing = None\<rparr>))
   \<and> throttled (fst (throttle (id :: int \<Rightarrow> int) 100 \<lparr>opt_leading = None, opt_trailing = None\<rparr>)) 1000 7
        (snd (throttle (id :: int \<Rightarrow> int) 100 \<lparr>opt_leading = None, opt_trailing = None\<rparr>))
      = (Some 7,
         \<lparr>th_lastCallTime = Some 1000, th_lastExecTime = 1000, th_timer = None,
          th_lastArgs = Some 7, th_isPending = False, th_calls = [7]\<rparr>)"
proof -
  let ?env = "fst (throttle (id :: int \<Rightarrow> int) 100 \<lparr>opt_leading = None, opt_trailing = None\<rparr>)"
  let ?st = "snd (throttle (id :: int \<Rightarrow> int) 100 \<lparr>opt_leading = None, opt_trailing = None\<rparr>)"
  have h1: "1000 - th_lastExecTime ?st \<ge> th_wait ?env" by (simp add: throttle_def)
  have h2: "th_leading ?env" by (simp add: throttle_def)
  show ?thesis
    using h1 h2 throttled_leading_call [OF h1 h2, of 7] by (simp add: throttle_def)
qed

text \<open>
  C2 as the specification states it fails: after the leading execution of that first call
  \<open>lastArgs\<close> still holds the call's arguments; it is not cleared.
\<close>

theorem throttled_leading_keeps_lastArgs:
  "1000 - th_lastExecTime (snd (throttle (id :: int \<Rightarrow> int) 100 \<lparr>opt_leading = None, opt_trailing = None\<rparr>))
     \<ge> th_wait (fst (throttle (id :: int \<Rightarrow> int) 100 \<lparr>opt_leading = None, opt_trailing = None\<rparr>))
   \<and> th_leading (fst (throttle (id :: int \<Rightarrow> int) 100 \<lparr>opt_leading = None, opt_trailing = None\<rparr>))
   \<and> th_lastArgs (snd (throttled
        (fst (throttle (id :: int \<Rightarrow> int) 100 \<lparr>opt_leading = None, opt_trailing = None\<rparr>)) 1000 7
        (snd (throttle (id :: int \<Rightarrow> int) 100 \<lparr>opt_leading = None, opt_trailing = None\<rparr>)))) \<noteq> None"
  by (simp add: throttle_def throttled_def throttle_execute_def)

text \<open>
  C7 (as amended). Whenever a call schedules a trailing execution (\<open>trailing\<close> enabled, no
  leading execution in this call, and no timer left scheduled), the delay handed to the
  timer is \<open>wait - elapsed\<close> as computed, without clamping; the call runs nothing and
  returns \<^verbatim>\<open>undefined\<close>. The delay equals \<open>max 0 (wait - elapsed)\<close> when \<open>elapsed \<le> wait\<close>
  and differs from it (being negative) when \<open>elapsed > wait\<close>.
\<close>

theorem throttled_schedules_trailing:
  assumes "th_trailing env"
    and "\<not> (now - th_lastExecTime st \<ge> th_wait env \<and> th_leading env)"
    and "now - th_lastExecTime st \<ge> th_wait env \<or> th_timer st = None"
  shows "th_timer (snd (throttled env now args st)) = Some (th_wait env - (now - th_lastExecTime st))
       \<and> th_isPending (snd (throttled env now args st))
       \<and> fst (throttled env now args st) = None
       \<and> th_calls (snd (throttled env now args st)) = th_calls st
       \<and> (now - th_lastExecTime st \<le> th_wait env \<longrightarrow>
            th_timer (snd (throttled env now args st))
              = Some (max 0 (th_wait env - (now - th_lastExecTime st))))
       \<and> (now - th_lastExecTime st > th_wait env \<longrightarrow>
            th_timer (snd (throttled env now args st))
              \<noteq> Some (max 0 (th_wait env - (now - th_lastExecTime st))))"
  using assms by (auto simp add: throttled_def Let_def)

text \<open>
  The theorem at the second call of \<^verbatim>\<open>throttle(fn, 100)\<close>: the first call ran at 1000, the
  second comes at 1030 and schedules the trailing execution 70 ms later.
\<close>

theorem throttled_schedules_trailing_witness:
  "th_trailing \<lparr>th_fn = (id :: int \<Rightarrow> int), th_wait = 100, th_leading = True, th_trailing = True\<rparr>
   \<and> th_timer (snd (throttled
        \<lparr>th_fn = (id :: int \<Rightarrow> int), th_wait = 100, th_leading = True, th_trailing = True\<rparr> 1030 8
        \<lparr>th_lastCallTime = Some 1000, th_lastExecTime = 1000, th_timer = None,
         th_lastArgs = Some 7, th_isPending = False, th_calls = [7]\<rparr>)) = Some 70"
proof -
  let ?env = "\<lparr>th_fn = (id :: int \<Rightarrow> int), th_wait = 100, th_leading = True, th_trailing = True\<rparr>"
  let ?st = "\<lparr>th_lastCallTime = Some 1000, th_lastExecTime = 1000, th_timer = None,
              th_lastArgs = Some (7 :: int), th_isPending = False, th_calls = [7]\<rparr>"
  have h1: "th_trailing ?env" by simp
  have h2: "\<not> (1030 - th_lastExecTime ?st \<ge> th_wait ?env \<and> th_leading ?env)" by simp
  have h3: "1030 - th_lastExecTime ?st \<ge> th_wait ?env \<or> th_timer ?st = None" by simp
  show ?thesis
    using h1 throttled_schedules_trailing [OF h1 h2 h3, of 8] by simp
qed

text \<open>
  C7 as the specification states it fails: with \<open>leading\<close> disabled, the first call of
  \<^verbatim>\<open>throttle(fn, 50, {leading: false})\<close> at clock reading 1000 has \<open>elapsed = 1000 \<ge> wait\<close>
  and hands the timer the delay \<open>-950\<close>, where \<open>max 0 (wait - elapsed)\<close> is \<open>0\<close>.
\<close>

theorem throttled_negative_delay:
  "th_timer (snd (throttled
      (fst (throttle (id :: int \<Rightarrow> int) 50 \<lparr>opt_leading = Some False, opt_trailing = None\<rparr>)) 1000 7
      (snd (throttle (id :: int \<Rightarrow> int) 50 \<lparr>opt_leading = Some False, opt_trailing = None\<rparr>))))
     = Some (- 950)
   \<and> max 0 (th_wait (fst (throttle (id :: int \<Rightarrow> int) 50 \<lparr>opt_leading = Some False, opt_trailing = None\<rparr>))
        - (1000 - th_lastExecTime
             (snd (throttle (id :: int \<Rightarrow> int) 50 \<lparr>opt_leading = Some False, opt_trailing = None\<rparr>))))
     = 0"
  by (simp add: throttle_def throttled_def)

text \<open>
  C8. When a trailing timer is scheduled and pending arguments exist, \<^verbatim>\<open>flush()\<close> cancels
  the timer, runs the wrapped function once with those arguments and clears the pending
  arguments and the pending flag; a second \<^verbatim>\<open>flush()\<close> right after it (at any clock
  reading) changes nothing and runs nothing.
\<close>

theorem throttled_flush_idempotent:
  assumes "th_timer st = Some d" and "th_lastArgs st = Some args"
  shows "throttled_flush env now st =
           st\<lparr>th_lastExecTime := now, th_timer := None, th_lastArgs := None,
              th_isPending := False, th_calls := th_calls st @ [args]\<rparr>
       \<and> throttled_flush env now' (throttled_flush env now st) = throttled_flush env now st"
  using assms by (simp add: throttled_flush_def throttle_execute_def)

text \<open>
  The theorem on the state that the calls at 1000 and 1030 of \<^verbatim>\<open>throttle(fn, 100)\<close> leave:
  the flush at 1040 runs \<^verbatim>\<open>fn\<close> with the argument of the second call.
\<close>

theorem throttled_flush_idempotent_witness:
  "th_timer \<lparr>th_lastCallTime = Some 1030, th_lastExecTime = 1000, th_timer = Some 70,
            th_lastArgs = Some (8 :: int), th_isPending = True, th_calls = [7]\<rparr> = Some 70
   \<and> throttled_flush \<lparr>th_fn = (id :: int \<Rightarrow> int), th_wait = 100, th_leading = True, th_trailing = True\<rparr> 1040
        \<lparr>th_lastCallTime = Some 1030, th_lastExecTime = 1000, th_timer = Some 70,
         th_lastArgs = Some 8, th_isPending = True, th_calls = [7]\<rparr>
      = \<lparr>th_lastCallTime = Some 1030, th_lastExecTime = 1040, th_timer = None,
         th_lastArgs = None, th_isPending = False, th_calls = [7, 8]\<rparr>"
proof -
  let ?env = "\<lparr>th_fn = (id :: int \<Rightarrow> int), th_wait = 100, th_leading = True, th_trailing = True\<rparr>"
  let ?st = "\<lparr>th_lastCallTime = Some 1030, th_lastExecTime = 1000, th_timer = Some 70,
              th_lastArgs = Some (8 :: int), th_isPending = True, th_calls = [7]\<rparr>"
  have h1: "th_timer ?st = Some 70" by simp
  have h2: "th_lastArgs ?st = Some 8" by simp
  show ?thesis
    using throttled_flush_idempotent [OF h1 h2, of ?env 1040 1040] by simp
qed

section \<open>Properties of the debounce\<close>

text \<open>
  C1, on the code. With \<open>leading\<close> enabled, a single call on an idle wrapper (no burst in
  progress) followed by the fire of its quiet-period timer invokes the wrapped function
  twice with the call's arguments, not once. The wrapper sets \<open>lastArgs\<close> before the
  leading execution and does not clear it afterwards, so the test \<^verbatim>\<open>!leading || lastArgs\<close>
  of the callback succeeds and \<^verbatim>\<open>execute()\<close> runs the function again; the branch that only
  clears \<open>isPending\<close> and \<open>leadingCalled\<close> is not taken.
\<close>

theorem debounce_leading_isolated_call_fires_twice:
  assumes "db_leading env" and "\<not> db_leadingCalled st"
  shows "db_calls (debounced_timer_fire env (debounced env args st)) = db_calls st @ [args, args]"
  using assms
  by (simp add: debounced_def debounced_timer_fire_def debounce_execute_def Let_def
      split: option.splits)

text \<open>
  The theorem on \<^verbatim>\<open>debounce(fn, 50, {leading: true})\<close>, called once with the argument 7:
  after the quiet-period timer has fired, the log of the invocations is \<open>[7, 7]\<close>.
\<close>

theorem debounce_leading_isolated_call_fires_twice_witness:
  "db_leading (fst (debounce (id :: int \<Rightarrow> int) 50 \<lparr>opt_leading_d = Some True, opt_maxWait = None\<rparr>))
   \<and> \<not> db_leadingCalled
         (snd (debounce (id :: int \<Rightarrow> int) 50 \<lparr>opt_leading_d = Some True, opt_maxWait = None\<rparr>))
   \<and> db_calls (debounced_timer_fire
        (fst (debounce (id :: int \<Rightarrow> int) 50 \<lparr>opt_leading_d = Some True, opt_maxWait = None\<rparr>))
        (debounced (fst (debounce (id :: int \<Rightarrow> int) 50 \<lparr>opt_leading_d = Some True, opt_maxWait = None\<rparr>)) 7
           (snd (debounce (id :: int \<Rightarrow> int) 50 \<lparr>opt_leading_d = Some True, opt_maxWait = None\<rparr>))))
      = [7, 7]"
proof -
  let ?env = "fst (debounce (id :: int \<Rightarrow> int) 50 \<lparr>opt_leading_d = Some True, opt_maxWait = None\<rparr>)"
  let ?st = "snd (debounce (id :: int \<Rightarrow> int) 50 \<lparr>opt_leading_d = Some True, opt_maxWait = None\<rparr>)"
  have h1: "db_leading ?env" by (simp add: debounce_def)
  have h2: "\<not> db_leadingCalled ?st" by (simp add: debounce_def)
  have c: "db_calls ?st = []" by (simp add: debounce_def)
  show ?thesis
    using h1 h2 c debounce_leading_isolated_call_fires_twice [OF h1 h2, of 7] by simp
qed

lemma debounced_after_call:
  "db_isPending (debounced env args st) \<and> db_timer (debounced env args st) = Some (db_wait env)
   \<and> (db_maxWait env \<noteq> None \<longrightarrow> db_maxTimer (debounced env args st) \<noteq> None)"
  by (simp add: debounced_def Let_def split: option.splits)

lemma debounced_burst_after_call:
  "db_isPending st \<and> db_timer st = Some (db_wait env) \<and> (db_maxWait env \<noteq> None \<longrightarrow> db_maxTimer st \<noteq> None)
   \<Longrightarrow> db_isPending (debounced_burst env later st) \<and> db_timer (debounced_burst env later st) = Some (db_wait env)
   \<and> (db_maxWait env \<noteq> None \<longrightarrow> db_maxTimer (debounced_burst env later st) \<noteq> None)"
proof (induction later arbitrary: st)
  case Nil
  then show ?case by simp
next
  case (Cons a later)
  show ?case
    using Cons.IH [of "debounced env a st"] debounced_after_call [of env a st] by simp
qed

lemma debounce_execute_not_pending: "\<not> db_isPending (debounce_execute st)"
  by (simp add: debounce_execute_def Let_def split: option.splits)

text \<open>
  C10. With \<open>leading\<close> enabled, \<open>pending\<close> is true right after a call, although the leading
  execution has already run (the first call of a burst appends its arguments to the log),
  and it is still true after any further calls of the burst. It becomes false when the
  burst is resolved: by the quiet-period timer, by the ceiling timer (when \<open>maxWait\<close> is
  configured), by \<^verbatim>\<open>cancel()\<close> or by \<^verbatim>\<open>flush()\<close>.
\<close>

theorem debounced_pending_until_resolved:
  assumes "db_leading env"
  shows "(\<not> db_leadingCalled st \<longrightarrow> db_calls (debounced env args st) = db_calls st @ [args])
       \<and> debounced_pending (debounced env args st)
       \<and> debounced_pending (debounced_burst env later (debounced env args st))
       \<and> \<not> debounced_pending
             (debounced_timer_fire env (debounced_burst env later (debounced env args st)))
       \<and> (db_maxWait env \<noteq> None \<longrightarrow>
             \<not> debounced_pending
                 (debounced_maxTimer_fire (debounced_burst env later (debounced env args st))))
       \<and> \<not> debounced_pending (debounced_cancel (debounced_burst env later (debounced env args st)))
       \<and> \<not> debounced_pending (debounced_flush (debounced_burst env later (debounced env args st)))"
proof -
  let ?s = "debounced_burst env later (debounced env args st)"
  have c: "db_isPending (debounced env args st)
      \<and> db_timer (debounced env args st) = Some (db_wait env)
      \<and> (db_maxWait env \<noteq> None \<longrightarrow> db_maxTimer (debounced env args st) \<noteq> None)"
    by (rule debounced_after_call)
  have b: "db_isPending ?s \<and> db_timer ?s = Some (db_wait env)
      \<and> (db_maxWait env \<noteq> None \<longrightarrow> db_maxTimer ?s \<noteq> None)"
    by (rule debounced_burst_after_call [OF c])
  have 1: "\<not> db_leadingCalled st \<longrightarrow> db_calls (debounced env args st) = db_calls st @ [args]"
    using assms by (simp add: debounced_def Let_def split: option.splits)
  have 2: "\<not> debounced_pending (debounced_timer_fire env ?s)"
    using b
    by (simp add: debounced_pending_def debounced_timer_fire_def Let_def
        debounce_execute_not_pending)
  have 3: "db_maxWait env \<noteq> None \<longrightarrow> \<not> debounced_pending (debounced_maxTimer_fire ?s)"
    using b
    by (auto simp add: debounced_pending_def debounced_maxTimer_fire_def
        debounce_execute_not_pending)
  have 4: "\<not> debounced_pending (debounced_cancel ?s)"
    by (simp add: debounced_pending_def debounced_cancel_def)
  have 5: "\<not> debounced_pending (debounced_flush ?s)"
    by (simp add: debounced_pending_def debounced_flush_def debounce_execute_not_pending)
  show ?thesis using c b 1 2 3 4 5 by (simp add: debounced_pending_def)
qed

text \<open>
  The theorem on \<^verbatim>\<open>debounce(fn, 50, {leading: true, maxWait: 80})\<close>, called with 7 and then,
  within the same burst, with 8 and 9: the leading execution ran with 7, \<open>pending\<close> is true
  after the first call and after the third, and false once the quiet-period timer fired.
\<close>

theorem debounced_pending_until_resolved_witness:
  "db_leading \<lparr>db_fn = (id :: int \<Rightarrow> int), db_wait = 50, db_leading = True, db_maxWait = Some 80\<rparr>
   \<and> db_calls (debounced
        \<lparr>db_fn = (id :: int \<Rightarrow> int), db_wait = 50, db_leading = True, db_maxWait = Some 80\<rparr> 7
        \<lparr>db_timer = None, db_maxTimer = None, db_lastArgs = None,
         db_isPending = False, db_leadingCalled = False, db_calls = []\<rparr>) = [7]
   \<and> debounced_pending (debounced
        \<lparr>db_fn = (id :: int \<Rightarrow> int), db_wait = 50, db_leading = True, db_maxWait = Some 80\<rparr> 7
        \<lparr>db_timer = None, db_maxTimer = None, db_lastArgs = None,
         db_isPending = False, db_leadingCalled = False, db_calls = []\<rparr>)
   \<and> debounced_pending (debounced_burst
        \<lparr>db_fn = (id :: int \<Rightarrow> int), db_wait = 50, db_leading = True, db_maxWait = Some 80\<rparr> [8, 9]
        (debounced
          \<lparr>db_fn = (id :: int \<Rightarrow> int), db_wait = 50, db_leading = True, db_maxWait = Some 80\<rparr> 7
          \<lparr>db_timer = None, db_maxTimer = None, db_lastArgs = None,
           db_isPending = False, db_leadingCalled = False, db_calls = []\<rparr>))
   \<and> \<not> debounced_pending (debounced_timer_fire
        \<lparr>db_fn = (id :: int \<Rightarrow> int), db_wait = 50, db_leading = True, db_maxWait = Some 80\<rparr>
        (debounced_burst
          \<lparr>db_fn = (id :: int \<Rightarrow> int), db_wait = 50, db_leading = True, db_maxWait = Some 80\<rparr> [8, 9]
          (debounced
            \<lparr>db_fn = (id :: int \<Rightarrow> int), db_wait = 50, db_leading = True, db_maxWait = Some 80\<rparr> 7
            \<lparr>db_timer = None, db_maxTimer = None, db_lastArgs = None,
             db_isPending = False, db_leadingCalled = False, db_calls = []\<rparr>)))"
proof -
  let ?env = "\<lparr>db_fn = (id :: int \<Rightarrow> int), db_wait = 50, db_leading = True, db_maxWait = Some 80\<rparr>"
  let ?st = "\<lparr>db_timer = None, db_maxTimer = None, db_lastArgs = None :: int option,
              db_isPending = False, db_leadingCalled = False, db_calls = []\<rparr>"
  have h: "db_leading ?env" by simp
  have l: "\<not> db_leadingCalled ?st" by simp
  show ?thesis
    using h l debounced_pending_until_resolved [OF h, of ?st 7 "[8, 9]"] by simp
qed

section \<open>Properties of the rate limiter\<close>

lemma cleanup_fields [simp]:
  "limit (cleanup now rl) = limit rl"
  "window (cleanup now rl) = window rl"
  "strategy (cleanup now rl) = strategy rl"
  "queue (cleanup now rl) = queue rl"
  "drainTimer (cleanup now rl) = drainTimer rl"
  "granted (cleanup now rl) = granted rl"
  "timestamps (cleanup now rl) = filter (\<lambda>t. t > now - window rl) (timestamps rl)"
  by (simp_all add: cleanup_def Let_def)

lemma tryAcquire_fields [simp]:
  "limit (snd (tryAcquire now rl)) = limit rl"
  "window (snd (tryAcquire now rl)) = window rl"
  "strategy (snd (tryAcquire now rl)) = strategy rl"
  "queue (snd (tryAcquire now rl)) = queue rl"
  "drainTimer (snd (tryAcquire now rl)) = drainTimer rl"
  "granted (snd (tryAcquire now rl)) = granted rl"
  by (simp_all add: tryAcquire_def Let_def)

lemma remaining_fields [simp]:
  "limit (snd (remaining now rl)) = limit rl"
  "queue (snd (remaining now rl)) = queue rl"
  "granted (snd (remaining now rl)) = granted rl"
  by (simp_all add: remaining_def Let_def)

lemma retryAfter_fields [simp]:
  "limit (snd (retryAfter now rl)) = limit rl"
  "queue (snd (retryAfter now rl)) = queue rl"
  "granted (snd (retryAfter now rl)) = granted rl"
  "timestamps (snd (retryAfter now rl)) = timestamps (cleanup now rl)"
  by (simp_all add: retryAfter_def Let_def split: list.splits)

lemma scheduleDrain_fields [simp]:
  "limit (scheduleDrain now rl) = limit rl"
  "queue (scheduleDrain now rl) = queue rl"
  "granted (scheduleDrain now rl) = granted rl"
  "drainTimer (scheduleDrain now rl) \<noteq> None"
  by (simp_all add: scheduleDrain_def split: option.splits prod.splits)
    (metis retryAfter_fields snd_conv)+

lemma scheduleDrain_timestamps:
  "timestamps (scheduleDrain now rl)
     = (if drainTimer rl = None then timestamps (cleanup now rl) else timestamps rl)"
proof (cases "drainTimer rl")
  case None
  obtain delay rl1 where r: "retryAfter now rl = (delay, rl1)"
    by (cases "retryAfter now rl") auto
  have "timestamps rl1 = timestamps (cleanup now rl)"
    using retryAfter_fields(4) [of now rl] r by simp
  then show ?thesis using None r by (simp add: scheduleDrain_def)
next
  case (Some d)
  then show ?thesis by (simp add: scheduleDrain_def)
qed

lemma enqueue_fields [simp]:
  "limit (enqueue now w rl) = limit rl"
  "queue (enqueue now w rl) = queue rl @ [w]"
  "granted (enqueue now w rl) = granted rl"
  "drainTimer (enqueue now w rl) \<noteq> None"
  by (simp_all add: enqueue_def)

lemma acquire_limit [simp]: "limit (snd (acquire now w rl)) = limit rl"
  by (cases "tryAcquire now rl"; cases "fst (tryAcquire now rl)"; cases "strategy rl")
     (use tryAcquire_fields(1,3) [of now rl] in \<open>auto simp add: acquire_def simp del: tryAcquire_fields\<close>)

lemma acquire_granted [simp]: "granted (snd (acquire now w rl)) = granted rl"
  by (cases "tryAcquire now rl"; cases "fst (tryAcquire now rl)"; cases "strategy rl")
     (use tryAcquire_fields(3,6) [of now rl] in \<open>auto simp add: acquire_def simp del: tryAcquire_fields\<close>)

lemma acquire_queue:
  "queue (snd (acquire now w rl)) = queue rl @ enqueued_by (Call_acquire now w) rl"
  by (cases "tryAcquire now rl"; cases "fst (tryAcquire now rl)"; cases "strategy rl")
     (use tryAcquire_fields(3,4) [of now rl] in \<open>auto simp add: acquire_def simp del: tryAcquire_fields\<close>)

lemma drainLoop_limit [simp]: "limit (drainLoop now rl) = limit rl"
proof (induction now rl rule: drainLoop.induct)
  case (1 now rl)
  show ?case
  proof (cases "queue rl")
    case Nil
    then show ?thesis by (simp add: drainLoop.simps [of now rl])
  next
    case (Cons item rest)
    show ?thesis
    proof (cases "tryAcquire now rl")
      case (Pair b rl1)
      have l: "limit rl1 = limit rl" using tryAcquire_fields(1) [of now rl] Pair by simp
      show ?thesis
      proof (cases b)
        case True
        then show ?thesis
          using "1.IH" [OF Cons, of b rl1] Pair Cons l
          by (simp add: drainLoop.simps [of now rl])
      next
        case False
        then show ?thesis using Pair Cons l by (simp add: drainLoop.simps [of now rl])
      qed
    qed
  qed
qed

lemma drainLoop_fifo: "granted (drainLoop now rl) @ queue (drainLoop now rl) = granted rl @ queue rl"
proof (induction now rl rule: drainLoop.induct)
  case (1 now rl)
  show ?case
  proof (cases "queue rl")
    case Nil
    then show ?thesis by (simp add: drainLoop.simps [of now rl])
  next
    case (Cons item rest)
    show ?thesis
    proof (cases "tryAcquire now rl")
      case (Pair b rl1)
      have q: "queue rl1 = queue rl" and g: "granted rl1 = granted rl"
        using tryAcquire_fields(4,6) [of now rl] Pair by simp_all
      show ?thesis
      proof (cases b)
        case True
        then show ?thesis
          using "1.IH" [OF Cons, of b rl1] Pair Cons q g
          by (simp add: drainLoop.simps [of now rl])
      next
        case False
        then show ?thesis using Pair Cons q g by (simp add: drainLoop.simps [of now rl])
      qed
    qed
  qed
qed

lemma drainQueue_limit [simp]: "limit (drainQueue now rl) = limit rl"
  by (simp add: drainQueue_def Let_def)

lemma drainQueue_fifo: "granted (drainQueue now rl) @ queue (drainQueue now rl) = granted rl @ queue rl"
  using drainLoop_fifo [of now rl] by (auto simp add: drainQueue_def Let_def)

lemma drainTimer_fire_limit [simp]: "limit (drainTimer_fire now rl) = limit rl"
  by (simp add: drainTimer_fire_def split: option.splits)

lemma drainTimer_fire_fifo:
  "granted (drainTimer_fire now rl) @ queue (drainTimer_fire now rl) = granted rl @ queue rl"
  using drainQueue_fifo [of now "rl\<lparr>drainTimer := None\<rparr>"]
  by (simp add: drainTimer_fire_def split: option.splits)

lemma step_limit [simp]: "limit (step e rl) = limit rl"
  by (cases e) (simp_all add: reset_def)

lemma run_limit [simp]: "limit (run es rl) = limit rl"
  by (induction es arbitrary: rl) simp_all

lemma step_fifo: "granted (step e rl) @ queue (step e rl) = granted rl @ queue rl @ enqueued_by e rl"
  by (cases e) (simp_all add: acquire_queue reset_def drainTimer_fire_fifo)

lemma run_fifo: "granted (run es rl) @ queue (run es rl) = granted rl @ queue rl @ arrivals es rl"
proof (induction es arbitrary: rl)
  case Nil
  then show ?case by simp
next
  case (Cons e es)
  have "granted (run (e # es) rl) @ queue (run (e # es) rl)
          = granted (step e rl) @ queue (step e rl) @ arrivals es (step e rl)"
    using Cons.IH [of "step e rl"] by simp
  also have "\<dots> = (granted rl @ queue rl @ enqueued_by e rl) @ arrivals es (step e rl)"
    using step_fifo [of e rl] by (metis append.assoc)
  finally show ?case by simp
qed

lemma tryAcquire_fresh:
  assumes "\<forall>x \<in> set (timestamps rl). now - window rl < x"
  shows "tryAcquire now rl =
           (if int (length (timestamps rl)) < limit rl
            then (True, rl\<lparr>timestamps := timestamps rl @ [now]\<rparr>) else (False, rl))"
proof -
  have "filter (\<lambda>t. t > now - window rl) (timestamps rl) = timestamps rl"
    using assms by (simp add: filter_id_conv)
  then have "cleanup now rl = rl" by (simp add: cleanup_def Let_def)
  then show ?thesis by (simp add: tryAcquire_def Let_def)
qed

lemma tryAcquire_seq_append:
  "tryAcquire_seq (xs @ ys) rl =
     (fst (tryAcquire_seq xs rl) @ fst (tryAcquire_seq ys (snd (tryAcquire_seq xs rl))),
      snd (tryAcquire_seq ys (snd (tryAcquire_seq xs rl))))"
  by (induction xs arbitrary: rl) (simp_all split: prod.splits)

lemma tryAcquire_seq_within_window:
  assumes "\<forall>x \<in> set (timestamps rl) \<union> set ts. u - window rl < x"
    and "\<forall>t \<in> set ts. t \<le> u"
    and "int (length (timestamps rl) + length ts) \<le> limit rl"
  shows "tryAcquire_seq ts rl = (replicate (length ts) True, rl\<lparr>timestamps := timestamps rl @ ts\<rparr>)"
  using assms
proof (induction ts arbitrary: rl)
  case Nil
  then show ?case by simp
next
  case (Cons t ts)
  have "t \<le> u" using Cons.prems(2) by simp
  moreover have "\<forall>x \<in> set (timestamps rl). u - window rl < x" using Cons.prems(1) by simp
  ultimately have fresh: "\<forall>x \<in> set (timestamps rl). t - window rl < x" by fastforce
  have lt: "int (length (timestamps rl)) < limit rl"
    using Cons.prems(3) by simp
  let ?rl1 = "rl\<lparr>timestamps := timestamps rl @ [t]\<rparr>"
  have step: "tryAcquire t rl = (True, ?rl1)"
    using tryAcquire_fresh [OF fresh] lt by simp
  have "tryAcquire_seq ts ?rl1 = (replicate (length ts) True, ?rl1\<lparr>timestamps := timestamps ?rl1 @ ts\<rparr>)"
    using Cons.prems by (intro Cons.IH) auto
  then show ?case using step by simp
qed

text \<open>
  C3. On a limiter constructed with a positive limit \<open>L\<close>, \<open>L\<close> consecutive
  \<^verbatim>\<open>tryAcquire()\<close> calls (at the clock readings \<open>us\<close>) followed by one more (at \<open>u\<close>), all
  within one window (\<open>u - hd us < window\<close>, the readings not decreasing), return \<open>true\<close>
  \<open>L\<close> times and then \<open>false\<close>; a further call at any reading \<open>t\<close> for which the oldest
  timestamp \<open>hd us\<close> has left the window (\<open>hd us \<le> t - window\<close>) returns \<open>true\<close>.
\<close>

theorem tryAcquire_limit_per_window:
  assumes "0 < opt_limit options"
    and "int (length us) = opt_limit options"
    and "sorted (us @ [u])"
    and "u - hd us < opt_window options"
  shows "fst (tryAcquire_seq (us @ [u]) (RateLimiter_new options :: 'w RateLimiter))
           = replicate (length us) True @ [False]
       \<and> (\<forall>t. hd us \<le> t - opt_window options \<longrightarrow>
            fst (tryAcquire t (snd (tryAcquire_seq (us @ [u]) (RateLimiter_new options :: 'w RateLimiter)))))"
proof -
  let ?rl0 = "RateLimiter_new options :: 'w RateLimiter"
  let ?rl1 = "?rl0\<lparr>timestamps := us\<rparr>"
  have ne: "us \<noteq> []" using assms(1,2) by auto
  have le_u: "\<forall>x \<in> set us. x \<le> u" using assms(3) by (simp add: sorted_append)
  have ge_hd: "\<forall>x \<in> set us. hd us \<le> x"
    using assms(3) ne by (cases us) (auto simp add: sorted_append)
  have in_window: "\<forall>x \<in> set us. u - opt_window options < x"
    using ge_hd assms(4) by fastforce
  have first: "tryAcquire_seq us ?rl0 = (replicate (length us) True, ?rl1)"
    using tryAcquire_seq_within_window [of ?rl0 us u] in_window le_u assms(2)
    by (simp add: RateLimiter_new_def)
  have last: "tryAcquire u ?rl1 = (False, ?rl1)"
    using tryAcquire_fresh [of ?rl1 u] in_window assms(2) by (simp add: RateLimiter_new_def)
  have all: "tryAcquire_seq (us @ [u]) ?rl0 = (replicate (length us) True @ [False], ?rl1)"
    by (simp add: tryAcquire_seq_append first last)
  have later: "fst (tryAcquire t ?rl1)" if "hd us \<le> t - opt_window options" for t
  proof -
    obtain x xs where us: "us = x # xs" using ne by (cases us) auto
    have "length (filter (\<lambda>s. s > t - opt_window options) us) \<le> length xs"
      using that us by simp
    then have "int (length (filter (\<lambda>s. s > t - opt_window options) us)) < opt_limit options"
      using assms(2) us by simp
    then show ?thesis by (simp add: tryAcquire_def Let_def RateLimiter_new_def)
  qed
  show ?thesis using later by (simp add: all)
qed

text \<open>
  The theorem on the scenario of the tests: \<^verbatim>\<open>RateLimiter({limit: 2, window: 50})\<close>, calls
  at 0, 10 and 20, and a fourth call at 70.
\<close>

theorem tryAcquire_limit_per_window_witness:
  "0 < opt_limit \<lparr>opt_limit = 2, opt_window = 50, opt_strategy = None\<rparr>
   \<and> int (length [0, 10 :: int]) = opt_limit \<lparr>opt_limit = 2, opt_window = 50, opt_strategy = None\<rparr>
   \<and> sorted ([0, 10] @ [20 :: int])
   \<and> 20 - hd [0, 10] < opt_window \<lparr>opt_limit = 2, opt_window = 50, opt_strategy = None\<rparr>
   \<and> fst (tryAcquire_seq ([0, 10] @ [20])
        (RateLimiter_new \<lparr>opt_limit = 2, opt_window = 50, opt_strategy = None\<rparr> :: nat RateLimiter))
      = [True, True, False]
   \<and> fst (tryAcquire 70 (snd (tryAcquire_seq ([0, 10] @ [20])
        (RateLimiter_new \<lparr>opt_limit = 2, opt_window = 50, opt_strategy = None\<rparr> :: nat RateLimiter))))"
proof -
  let ?options = "\<lparr>opt_limit = 2, opt_window = 50, opt_strategy = None\<rparr>"
  have h1: "0 < opt_limit ?options" by simp
  have h2: "int (length [0, 10 :: int]) = opt_limit ?options" by simp
  have h3: "sorted ([0, 10] @ [20 :: int])" by simp
  have h4: "20 - hd [0, 10] < opt_window ?options" by simp
  have h5: "hd [0, 10] \<le> 70 - opt_window ?options" by simp
  note t = tryAcquire_limit_per_window [OF h1 h2 h3 h4, where ?'w = nat]
  have "fst (tryAcquire 70 (snd (tryAcquire_seq ([0, 10] @ [20])
          (RateLimiter_new ?options :: nat RateLimiter))))"
    using t h5 by blast
  moreover have "fst (tryAcquire_seq ([0, 10] @ [20]) (RateLimiter_new ?options :: nat RateLimiter))
      = [True, True, False]"
    using t by (simp add: numeral_2_eq_2)
  ultimately show ?thesis using h1 h2 h3 h4 by blast
qed

text \<open>
  C4. When \<^verbatim>\<open>tryAcquire()\<close> fails, the promise of \<^verbatim>\<open>acquire()\<close> is rejected if and only if
  the strategy is \<^verbatim>\<open>"error"\<close>, and then with a \<open>RateLimitError\<close> carrying the limiter's
  \<open>limit\<close> and \<open>window\<close>; it is resolved with \<open>false\<close> if and only if the strategy is
  \<^verbatim>\<open>"drop"\<close>; under \<^verbatim>\<open>"queue"\<close> (and only then) it is left pending, its waiter appended to
  the queue with a drain timer scheduled, and it is not rejected. (No handler of the
  limiter calls the \<^verbatim>\<open>reject\<close> callback of a queued waiter.)
\<close>

theorem acquire_strategies:
  assumes "\<not> fst (tryAcquire now rl)"
  shows "((\<exists>e. fst (acquire now w rl) = Rejected e) \<longleftrightarrow> strategy rl = Error)
       \<and> (fst (acquire now w rl) = Rejected (RateLimitError (limit rl) (window rl))
            \<longleftrightarrow> strategy rl = Error)
       \<and> (fst (acquire now w rl) = Resolved False \<longleftrightarrow> strategy rl = Drop)
       \<and> (fst (acquire now w rl) = Pending w \<longleftrightarrow> strategy rl = Queue)
       \<and> (strategy rl = Queue \<longrightarrow>
            queue (snd (acquire now w rl)) = queue rl @ [w]
            \<and> drainTimer (snd (acquire now w rl)) \<noteq> None
            \<and> granted (snd (acquire now w rl)) = granted rl)
       \<and> (strategy rl \<noteq> Queue \<longrightarrow> queue (snd (acquire now w rl)) = queue rl)"
proof -
  obtain rl1 where t: "tryAcquire now rl = (False, rl1)"
    using assms by (cases "tryAcquire now rl") auto
  have f: "strategy rl1 = strategy rl" "limit rl1 = limit rl" "window rl1 = window rl"
      "queue rl1 = queue rl" "granted rl1 = granted rl"
    using tryAcquire_fields [of now rl] t by simp_all
  show ?thesis
    by (cases "strategy rl") (simp_all add: acquire_def t f)
qed

text \<open>
  The theorem on the scenario of the tests:
  \<^verbatim>\<open>RateLimiter({limit: 1, window: 1000, strategy: "error"})\<close>, whose first \<^verbatim>\<open>acquire()\<close>
  (at 0) took the only slot; the second one (at 5) is rejected.
\<close>

theorem acquire_strategies_witness:
  "\<not> fst (tryAcquire 5
       \<lparr>limit = 1, window = 1000, strategy = Error, timestamps = [0],
        queue = [] :: nat list, drainTimer = None, granted = []\<rparr>)
   \<and> fst (acquire 5 1
       \<lparr>limit = 1, window = 1000, strategy = Error, timestamps = [0],
        queue = [] :: nat list, drainTimer = None, granted = []\<rparr>)
     = Rejected (RateLimitError 1 1000)"
proof -
  let ?rl = "\<lparr>limit = 1, window = 1000, strategy = Error, timestamps = [0],
              queue = [] :: nat list, drainTimer = None, granted = []\<rparr>"
  have h: "\<not> fst (tryAcquire 5 ?rl)" by (simp add: tryAcquire_def cleanup_def)
  show ?thesis
    using h acquire_strategies [OF h, of 1] by simp
qed

text \<open>
  C5. Under the \<^verbatim>\<open>"queue"\<close> strategy waiters are granted in the order of their
  \<^verbatim>\<open>acquire()\<close> calls: after any sequence of events on a new limiter, the waiters granted
  so far followed by those still queued are exactly the promises that \<^verbatim>\<open>acquire()\<close> left
  pending, in the order of the calls. Enqueueing appends the new waiter after all existing
  ones whatever the capacity at that time, grants nothing and takes no slot (it pushes no
  timestamp); only the callback of the drain timer and \<^verbatim>\<open>reset()\<close> grant waiters. The
  facts about \<open>enqueue\<close> hold in every state of the limiter, also in one where a slot
  is free at the reading of the executor (in the code: when a timestamp expires between
  the failed \<^verbatim>\<open>tryAcquire()\<close> and the clean-up of \<^verbatim>\<open>scheduleDrain()\<close>).
\<close>

theorem queue_is_fifo:
  "granted (run es (RateLimiter_new options :: 'w RateLimiter))
     @ queue (run es (RateLimiter_new options :: 'w RateLimiter))
     = arrivals es (RateLimiter_new options :: 'w RateLimiter)
   \<and> queue (enqueue now w rl) = queue rl @ [w]
   \<and> granted (enqueue now w rl) = granted rl
   \<and> timestamps (enqueue now w rl)
       = (if drainTimer rl = None then timestamps (cleanup now rl) else timestamps rl)
   \<and> (e \<noteq> Call_reset \<and> (\<forall>t. e \<noteq> Fire_drainTimer t) \<longrightarrow> granted (step e rl) = granted rl)"
proof -
  have 1: "granted (run es (RateLimiter_new options :: 'w RateLimiter))
     @ queue (run es (RateLimiter_new options :: 'w RateLimiter))
     = arrivals es (RateLimiter_new options :: 'w RateLimiter)"
    using run_fifo [of es "RateLimiter_new options :: 'w RateLimiter"]
    by (simp add: RateLimiter_new_def)
  have 2: "timestamps (enqueue now w rl)
       = (if drainTimer rl = None then timestamps (cleanup now rl) else timestamps rl)"
    by (simp add: enqueue_def scheduleDrain_timestamps)
  have 3: "e \<noteq> Call_reset \<and> (\<forall>t. e \<noteq> Fire_drainTimer t) \<longrightarrow> granted (step e rl) = granted rl"
    by (cases e) simp_all
  show ?thesis using 1 2 3 by simp
qed

text \<open>
  The theorem on \<^verbatim>\<open>RateLimiter({limit: 1, window: 50, strategy: "queue"})\<close>: the
  \<^verbatim>\<open>acquire()\<close> at 0 takes the slot, those at 10 and 20 queue the promises 2 and 3, and the
  drain timer fires at 55 and at 110; the promises are granted in that order. And on a
  limiter whose only timestamp 0 has expired at 60: \<^verbatim>\<open>remaining()\<close> is 1 there, and
  enqueueing the promise 9 at 60 still queues it and grants nothing.
\<close>

theorem queue_is_fifo_witness:
  "granted (run [Call_acquire 0 1, Call_acquire 10 2, Call_acquire 20 3,
                 Fire_drainTimer 55, Fire_drainTimer 110]
        (RateLimiter_new \<lparr>opt_limit = 1, opt_window = 50, opt_strategy = Some Queue\<rparr>
           :: nat RateLimiter))
     @ queue (run [Call_acquire 0 1, Call_acquire 10 2, Call_acquire 20 3,
                   Fire_drainTimer 55, Fire_drainTimer 110]
        (RateLimiter_new \<lparr>opt_limit = 1, opt_window = 50, opt_strategy = Some Queue\<rparr>
           :: nat RateLimiter))
     = [2, 3]
   \<and> granted (run [Call_acquire 0 1, Call_acquire 10 2, Call_acquire 20 3,
                   Fire_drainTimer 55, Fire_drainTimer 110]
        (RateLimiter_new \<lparr>opt_limit = 1, opt_window = 50, opt_strategy = Some Queue\<rparr>
           :: nat RateLimiter))
     = [2, 3]
   \<and> fst (remaining 60
        \<lparr>limit = 1, window = 50, strategy = Queue, timestamps = [0],
         queue = [8 :: nat], drainTimer = None, granted = []\<rparr>) = 1
   \<and> queue (enqueue 60 9
        \<lparr>limit = 1, window = 50, strategy = Queue, timestamps = [0],
         queue = [8 :: nat], drainTimer = None, granted = []\<rparr>) = [8, 9]
   \<and> granted (enqueue 60 9
        \<lparr>limit = 1, window = 50, strategy = Queue, timestamps = [0],
         queue = [8 :: nat], drainTimer = None, granted = []\<rparr>) = []
   \<and> timestamps (enqueue 60 9
        \<lparr>limit = 1, window = 50, strategy = Queue, timestamps = [0],
         queue = [8 :: nat], drainTimer = None, granted = []\<rparr>) = []
   \<and> granted (step (Call_tryAcquire 60)
        \<lparr>limit = 1, window = 50, strategy = Queue, timestamps = [0],
         queue = [8 :: nat], drainTimer = None, granted = []\<rparr>) = []"
proof -
  let ?es = "[Call_acquire 0 1, Call_acquire 10 2, Call_acquire 20 3,
              Fire_drainTimer 55, Fire_drainTimer 110] :: nat event list"
  let ?options = "\<lparr>opt_limit = 1, opt_window = 50, opt_strategy = Some Queue\<rparr>"
  let ?rl = "\<lparr>limit = 1, window = 50, strategy = Queue, timestamps = [0],
              queue = [8 :: nat], drainTimer = None, granted = []\<rparr>"
  note t = queue_is_fifo [of ?es ?options 60 9 ?rl "Call_tryAcquire 60"]
  have a: "arrivals ?es (RateLimiter_new ?options) = [2, 3]"
    by (simp add: RateLimiter_new_def acquire_def tryAcquire_def cleanup_def enqueue_def
        scheduleDrain_def retryAfter_def)
  have g: "granted (run ?es (RateLimiter_new ?options)) = [2, 3]"
    by (simp add: RateLimiter_new_def acquire_def tryAcquire_def cleanup_def enqueue_def
        scheduleDrain_def retryAfter_def drainTimer_fire_def drainQueue_def drainLoop.simps)
  have r: "fst (remaining 60 ?rl) = 1"
    by (simp add: remaining_def cleanup_def)
  have c: "timestamps (cleanup 60 ?rl) = []"
    by (simp add: cleanup_def)
  show ?thesis using t a g r c by simp
qed

text \<open>
  C6. After \<^verbatim>\<open>reset()\<close> the timestamps are empty, every waiter that was queued has been
  granted, in queue order and whatever the limit, the queue is empty and the drain timer
  is cancelled; \<^verbatim>\<open>remaining()\<close> then returns \<open>max 0 limit\<close>, which is \<open>limit\<close> for a limit
  that is not negative.
\<close>

theorem reset_clears:
  "timestamps (reset rl) = []
   \<and> queue (reset rl) = []
   \<and> drainTimer (reset rl) = None
   \<and> granted (reset rl) = granted rl @ queue rl
   \<and> fst (remaining now (reset rl)) = max 0 (limit rl)
   \<and> (0 \<le> limit rl \<longrightarrow> fst (remaining now (reset rl)) = limit rl)"
  by (simp add: reset_def remaining_def Let_def)

text \<open>
  The theorem on a limiter of limit 1 with one timestamp, the promise 2 granted, the
  promises 3 and 4 queued and a drain timer scheduled: \<^verbatim>\<open>reset()\<close> grants both.
\<close>

theorem reset_clears_witness:
  "reset \<lparr>limit = 1, window = 50, strategy = Queue, timestamps = [55],
          queue = [3, 4 :: nat], drainTimer = Some (Num 50), granted = [2]\<rparr>
     = \<lparr>limit = 1, window = 50, strategy = Queue, timestamps = [],
        queue = [], drainTimer = None, granted = [2, 3, 4]\<rparr>
   \<and> fst (remaining 60
        (reset \<lparr>limit = 1, window = 50, strategy = Queue, timestamps = [55],
                queue = [3, 4 :: nat], drainTimer = Some (Num 50), granted = [2]\<rparr>)) = 1"
proof -
  let ?rl = "\<lparr>limit = 1, window = 50, strategy = Queue, timestamps = [55],
              queue = [3, 4 :: nat], drainTimer = Some (Num 50), granted = [2]\<rparr>"
  have h: "0 \<le> limit ?rl" by simp
  have "fst (remaining 60 (reset ?rl)) = 1"
    using h reset_clears [of ?rl 60] by simp
  moreover have "reset ?rl = \<lparr>limit = 1, window = 50, strategy = Queue, timestamps = [],
        queue = [], drainTimer = None, granted = [2, 3, 4]\<rparr>"
    by (simp add: reset_def)
  ultimately show ?thesis by simp
qed

text \<open>
  C9. A limiter is constructed from any options (the constructor has no failure case and
  stores the limit as given); with a limit \<open>\<le> 0\<close>, after any sequence of events every
  \<^verbatim>\<open>tryAcquire()\<close> returns \<open>false\<close> and \<^verbatim>\<open>remaining()\<close> returns \<open>0\<close>.
\<close>

theorem nonpositive_limit:
  assumes "opt_limit options \<le> 0"
  shows "limit (RateLimiter_new options :: 'w RateLimiter) = opt_limit options
       \<and> \<not> fst (tryAcquire now (run es (RateLimiter_new options :: 'w RateLimiter)))
       \<and> fst (remaining now (run es (RateLimiter_new options :: 'w RateLimiter))) = 0"
proof -
  have l: "limit (run es (RateLimiter_new options :: 'w RateLimiter)) \<le> 0" for es
    using assms by (simp add: RateLimiter_new_def)
  show ?thesis
    using l [of es] by (simp add: tryAcquire_def remaining_def Let_def) (simp add: RateLimiter_new_def)
qed

text \<open>
  The theorem on \<^verbatim>\<open>RateLimiter({limit: 0, window: 1000})\<close> after a \<^verbatim>\<open>tryAcquire()\<close> and an
  \<^verbatim>\<open>acquire()\<close>.
\<close>

theorem nonpositive_limit_witness:
  "opt_limit \<lparr>opt_limit = 0, opt_window = 1000, opt_strategy = None\<rparr> \<le> 0
   \<and> \<not> fst (tryAcquire 3 (run [Call_tryAcquire 1, Call_acquire 2 7]
        (RateLimiter_new \<lparr>opt_limit = 0, opt_window = 1000, opt_strategy = None\<rparr>
           :: nat RateLimiter)))
   \<and> fst (remaining 3 (run [Call_tryAcquire 1, Call_acquire 2 7]
        (RateLimiter_new \<lparr>opt_limit = 0, opt_window = 1000, opt_strategy = None\<rparr>
           :: nat RateLimiter))) = 0"
proof -
  let ?options = "\<lparr>opt_limit = 0, opt_window = 1000, opt_strategy = None\<rparr>"
  have h: "opt_limit ?options \<le> 0" by simp
  note t = nonpositive_limit [OF h, of 3 "[Call_tryAcquire 1, Call_acquire 2 7] :: nat event list"]
  show ?thesis using h t by blast
qed

end
